theory Spec2Isabelle
  imports Main "HOL-Library.Monad_Syntax"
begin

unbundle bit_operations_syntax

section \<open>Go strings, bytes and runes\<close>

text \<open>
  A Go \<^verbatim>\<open>string\<close> is a sequence of bytes; it is modelled as a \<^typ>\<open>string\<close>, whose
  characters are exactly the 256 byte values. A \<^verbatim>\<open>rune\<close> (\<^verbatim>\<open>int32\<close>) is an
  \<^typ>\<open>int\<close>; every rune computed below lies between 0 and 0x10FFFF, so no
  wrap-around can occur. A run-time panic (index or slice out of range) is the value
  \<^term>\<open>None\<close>.
\<close>

type_synonym rune = int

abbreviation (input) dquote :: char where "dquote \<equiv> CHR 0x22"
abbreviation (input) squote :: char where "squote \<equiv> CHR 0x27"
abbreviation (input) bslash :: char where "bslash \<equiv> CHR 0x5C"
abbreviation (input) newline :: char where "newline \<equiv> CHR 0x0A"

text \<open>\<^verbatim>\<open>s[k]\<close>: panics when \<open>k\<close> is out of range.\<close>

definition byteAt :: "string \<Rightarrow> int \<Rightarrow> char option" where
  "byteAt s k = (if 0 \<le> k \<and> k < int (length s) then Some (s ! nat k) else None)"

text \<open>\<^verbatim>\<open>s[lo:hi]\<close>: panics unless \<open>0 \<le> lo \<le> hi \<le> len(s)\<close>.\<close>

definition slice :: "string \<Rightarrow> int \<Rightarrow> int \<Rightarrow> string option" where
  "slice s lo hi =
     (if 0 \<le> lo \<and> lo \<le> hi \<and> hi \<le> int (length s)
      then Some (take (nat (hi - lo)) (drop (nat lo) s)) else None)"

subsection \<open>Package unicode/utf8\<close>

definition RuneError :: rune where "RuneError = 0xFFFD"
definition RuneSelf :: rune where "RuneSelf = 0x80"
definition MaxRune :: rune where "MaxRune = 0x10FFFF"

text \<open>
  The table \<^verbatim>\<open>first\<close> of package utf8 with its \<^verbatim>\<open>acceptRanges\<close>: a byte is ASCII
  (\<^verbatim>\<open>as\<close>), never a leading byte (\<^verbatim>\<open>xx\<close>), or the leading byte of a sequence of the
  given size whose second byte must lie in the given range.
\<close>

datatype leadInfo = AS | XX | SZ nat int int

definition first :: "int \<Rightarrow> leadInfo" where
  "first b =
     (if b < 0x80 then AS
      else if b < 0xC2 then XX
      else if b < 0xE0 then SZ 2 0x80 0xBF
      else if b = 0xE0 then SZ 3 0xA0 0xBF
      else if b < 0xED then SZ 3 0x80 0xBF
      else if b = 0xED then SZ 3 0x80 0x9F
      else if b < 0xF0 then SZ 3 0x80 0xBF
      else if b = 0xF0 then SZ 4 0x90 0xBF
      else if b < 0xF4 then SZ 4 0x80 0xBF
      else if b = 0xF4 then SZ 4 0x80 0x8F
      else XX)"

text \<open>\<^verbatim>\<open>utf8.DecodeRuneInString\<close>: the rune at the start of \<open>s\<close> and its width in bytes.\<close>

definition DecodeRuneInString :: "string \<Rightarrow> rune \<times> nat" where
  "DecodeRuneInString s =
     (let n = length s in
      if n < 1 then (RuneError, 0)
      else
        let s0 = of_char (s ! 0) in
        case first s0 of
          AS \<Rightarrow> (s0, 1)
        | XX \<Rightarrow> (RuneError, 1)
        | SZ sz lo hi \<Rightarrow>
            if n < sz then (RuneError, 1)
            else
              let s1 = of_char (s ! 1) in
              if s1 < lo \<or> hi < s1 then (RuneError, 1)
              else if sz \<le> 2 then (push_bit 6 (s0 AND 0x1F) OR (s1 AND 0x3F), 2)
              else
                let s2 = of_char (s ! 2) in
                if s2 < 0x80 \<or> 0xBF < s2 then (RuneError, 1)
                else if sz \<le> 3
                then (push_bit 12 (s0 AND 0x0F) OR push_bit 6 (s1 AND 0x3F) OR (s2 AND 0x3F), 3)
                else
                  let s3 = of_char (s ! 3) in
                  if s3 < 0x80 \<or> 0xBF < s3 then (RuneError, 1)
                  else (push_bit 18 (s0 AND 0x07) OR push_bit 12 (s1 AND 0x3F)
                          OR push_bit 6 (s2 AND 0x3F) OR (s3 AND 0x3F), 4))"

text \<open>
  The conversion \<^verbatim>\<open>string(r)\<close> of a rune: its UTF-8 encoding, and the encoding of
  U+FFFD for a value that is no Unicode code point.
\<close>

definition stringOfRune :: "rune \<Rightarrow> string" where
  "stringOfRune r =
     (if 0 \<le> r \<and> r \<le> 0x7F then [char_of r]
      else if 0 \<le> r \<and> r \<le> 0x7FF
      then [char_of (0xC0 OR drop_bit 6 r), char_of (0x80 OR (r AND 0x3F))]
      else if r < 0 \<or> MaxRune < r \<or> (0xD800 \<le> r \<and> r \<le> 0xDFFF)
      then [CHR 0xEF, CHR 0xBF, CHR 0xBD]
      else if r \<le> 0xFFFF
      then [char_of (0xE0 OR drop_bit 12 r), char_of (0x80 OR (drop_bit 6 r AND 0x3F)),
            char_of (0x80 OR (r AND 0x3F))]
      else [char_of (0xF0 OR drop_bit 18 r), char_of (0x80 OR (drop_bit 12 r AND 0x3F)),
            char_of (0x80 OR (drop_bit 6 r AND 0x3F)), char_of (0x80 OR (r AND 0x3F))])"

definition ValidRune :: "rune \<Rightarrow> bool" where
  "ValidRune r = ((0 \<le> r \<and> r < 0xD800) \<or> (0xDFFF < r \<and> r \<le> MaxRune))"

subsection \<open>Package strconv: \<^verbatim>\<open>QuoteToASCII\<close>\<close>

definition lowerhex :: string where
  "lowerhex = ''0123456789abcdef''"

text \<open>\<^verbatim>\<open>lowerhex[r>>s & 0xF]\<close> for \<open>s\<close> = \<open>hi\<close>, \<open>hi - 4\<close>, ..., 0 (\<open>k\<close> digits).\<close>

fun hexDigits :: "nat \<Rightarrow> rune \<Rightarrow> string" where
  "hexDigits 0 r = []"
| "hexDigits (Suc k) r = lowerhex ! nat (drop_bit (4 * k) r AND 0xF) # hexDigits k r"

text \<open>
  \<^verbatim>\<open>appendEscapedRune\<close> with \<^verbatim>\<open>quote = '"'\<close> and \<^verbatim>\<open>ASCIIonly = true\<close>: the text
  appended for the rune \<open>r\<close>.
\<close>

definition appendEscapedRune :: "rune \<Rightarrow> string" where
  "appendEscapedRune r =
     (if r = of_char dquote \<or> r = of_char bslash then [bslash, char_of r]
      else if r < RuneSelf \<and> 0x20 \<le> r \<and> r \<le> 0x7E then [char_of r]
      else if r = 0x07 then [bslash, CHR ''a'']
      else if r = 0x08 then [bslash, CHR ''b'']
      else if r = 0x0C then [bslash, CHR ''f'']
      else if r = 0x0A then [bslash, CHR ''n'']
      else if r = 0x0D then [bslash, CHR ''r'']
      else if r = 0x09 then [bslash, CHR ''t'']
      else if r = 0x0B then [bslash, CHR ''v'']
      else if r < 0x20 \<or> r = 0x7F
      then [bslash, CHR ''x'', lowerhex ! nat (drop_bit 4 (r AND 0xFF)), lowerhex ! nat (r AND 0xF)]
      else if \<not> ValidRune r then [bslash, CHR ''u''] @ hexDigits 4 0xFFFD
      else if r < 0x10000 then [bslash, CHR ''u''] @ hexDigits 4 r
      else [bslash, CHR ''U''] @ hexDigits 8 r)"

text \<open>
  The loop of \<^verbatim>\<open>appendQuotedWith\<close>: it consumes one rune, or one byte that starts no
  valid encoding, per round.
\<close>

function quoteLoop :: "string \<Rightarrow> string" where
  "quoteLoop [] = []"
| "quoteLoop (c # cs) =
     (let s = c # cs;
          rw = (if RuneSelf \<le> of_char c then DecodeRuneInString s else (of_char c, 1));
          r = fst rw; width = snd rw
      in if width = 1 \<and> r = RuneError
         then [bslash, CHR ''x'', lowerhex ! nat (drop_bit 4 (of_char c :: int)),
               lowerhex ! nat (of_char c AND (0xF :: int))] @ quoteLoop (drop width s)
         else appendEscapedRune r @ quoteLoop (drop width s))"
  by pat_completeness auto
termination
proof (relation "measure length")
  show "wf (measure length)" by simp
next
  fix c :: char and cs s rw r width
  assume s: "s = c # cs"
    and rw: "rw = (if RuneSelf \<le> of_char c then DecodeRuneInString s else (of_char c, 1))"
    and w: "width = snd rw"
  have "1 \<le> snd (DecodeRuneInString (c # cs))"
    by (simp add: DecodeRuneInString_def Let_def split: leadInfo.splits)
  with s rw w have "1 \<le> width" by (simp split: if_splits)
  with s show "(drop width s, c # cs) \<in> measure length" by simp
  with s show "(drop width s, c # cs) \<in> measure length" by simp
qed

definition QuoteToASCII :: "string \<Rightarrow> string" where
  "QuoteToASCII s = [dquote] @ quoteLoop s @ [dquote]"

subsection \<open>Package strings\<close>

text \<open>\<^verbatim>\<open>strings.Replace(s, "'", "''", -1)\<close>: every single quote is doubled.\<close>

fun ReplaceQuote :: "string \<Rightarrow> string" where
  "ReplaceQuote [] = []"
| "ReplaceQuote (c # cs) = (if c = squote then [squote, squote] else [c]) @ ReplaceQuote cs"

section \<open>The literal quoter\<close>

definition stringLiteral :: "string \<Rightarrow> string option" where
  "stringLiteral s0 =
     (let s = QuoteToASCII s0 in
      case slice s 1 (int (length s) - 1) of
        None \<Rightarrow> None
      | Some body \<Rightarrow> Some (''E'' @ [squote] @ ReplaceQuote body @ [squote]))"

section \<open>The pattern parser\<close>

subsection \<open>Library functions the parser calls\<close>

text \<open>
  \<^verbatim>\<open>unicode.IsUpper\<close> and \<^verbatim>\<open>unicode.ToLower\<close> on the runes up to U+00FF (the
  Latin-1 property table of package unicode). The parser passes \<^verbatim>\<open>rune(ch)\<close> for a
  byte \<open>ch\<close>, so no other rune reaches them.
\<close>

definition IsUpper :: "rune \<Rightarrow> bool" where
  "IsUpper r = ((0x41 \<le> r \<and> r \<le> 0x5A) \<or> (0xC0 \<le> r \<and> r \<le> 0xD6) \<or> (0xD8 \<le> r \<and> r \<le> 0xDE))"

definition ToLower :: "rune \<Rightarrow> rune" where
  "ToLower r = (if IsUpper r then r + 32 else r)"

text \<open>The regular-expression characters of \<^verbatim>\<open>"|*+?()[]{}.^$\\"\<close>.\<close>

definition specials :: string where
  "specials = ''|*+?()[]{}.^$'' @ [bslash]"

subsection \<open>\<^verbatim>\<open>parsePattern\<close>\<close>

text \<open>
  The variables of the scan: the two buffers, the flag \<^verbatim>\<open>inquotes\<close> and the index
  \<^verbatim>\<open>i\<close> (field \<open>idx\<close>).
\<close>

record scanner =
  schemabuf :: string
  namebuf :: string
  inquotes :: bool
  idx :: int

text \<open>
  One round of the \<^verbatim>\<open>for\<close> loop, without the loop's own post statement \<^verbatim>\<open>i++\<close>.
  The cases are those of the \<^verbatim>\<open>switch\<close>, in its order. \<^verbatim>\<open>fmt.Fprint(namebuf, '"')\<close>
  is handed a rune constant, an integer, and formats it in decimal: it writes
  \<^verbatim>\<open>34\<close>. \<^verbatim>\<open>string(ch)\<close> of a byte is the UTF-8 encoding of the code point of that
  value. In the condition of the default case \<^verbatim>\<open>&&\<close> binds tighter than \<^verbatim>\<open>||\<close>.
\<close>

definition loopBody :: "string \<Rightarrow> bool \<Rightarrow> scanner \<Rightarrow> scanner option" where
  "loopBody pattern forceEscape st = do {
     ch \<leftarrow> byteAt pattern (idx st);
     nxt \<leftarrow> (if idx st < int (length pattern) - 1 then byteAt pattern (idx st + 1)
             else Some (CHR 0x00));
     if ch = dquote then
       Some (if inquotes st \<and> nxt = dquote
             then st\<lparr>namebuf := namebuf st @ ''34'', idx := idx st + 1 + 1\<rparr>
             else st\<lparr>inquotes := \<not> inquotes st, idx := idx st + 1\<rparr>)
     else if \<not> inquotes st \<and> IsUpper (of_char ch) then
       Some (st\<lparr>namebuf := namebuf st @ stringOfRune (ToLower (of_char ch)), idx := idx st + 1\<rparr>)
     else if \<not> inquotes st \<and> ch = CHR ''*'' then
       Some (st\<lparr>namebuf := namebuf st @ ''.*'', idx := idx st + 1\<rparr>)
     else if \<not> inquotes st \<and> ch = CHR ''?'' then
       Some (st\<lparr>namebuf := namebuf st @ ''.'', idx := idx st + 1\<rparr>)
     else if \<not> inquotes st \<and> ch = CHR ''.'' then
       Some (st\<lparr>schemabuf := namebuf st, namebuf := ''^('', idx := idx st + 1\<rparr>)
     else if ch = CHR ''$'' then
       Some (st\<lparr>namebuf := namebuf st @ [bslash, CHR ''$''], idx := idx st + 1\<rparr>)
     else do {
       rest \<leftarrow> slice pattern (idx st) (int (length pattern));
       let nb = (if inquotes st \<or> forceEscape \<and> ch \<in> set specials
                 then namebuf st @ [bslash] else namebuf st);
       let rn = DecodeRuneInString rest;
       Some (st\<lparr>namebuf := nb @ stringOfRune (fst rn), idx := idx st + int (snd rn)\<rparr>)
     }
   }"

text \<open>The loop: while \<^verbatim>\<open>i < len(pattern)\<close>, run the body, then \<^verbatim>\<open>i++\<close>.\<close>

function parseLoop :: "string \<Rightarrow> bool \<Rightarrow> scanner \<Rightarrow> scanner option" where
  "parseLoop pattern forceEscape st =
     (if idx st < int (length pattern)
      then (case loopBody pattern forceEscape st of
              None \<Rightarrow> None
            | Some st' \<Rightarrow> parseLoop pattern forceEscape (st'\<lparr>idx := idx st' + 1\<rparr>))
      else Some st)"
  by pat_completeness auto
termination
proof (relation "measure (\<lambda>(pattern, forceEscape, st). nat (int (length pattern) - idx st))")
  show "wf (measure (\<lambda>(pattern, forceEscape, st). nat (int (length pattern) - idx st)))"
    by simp
next
  fix pattern forceEscape and st st' :: scanner
  assume lt: "idx st < int (length pattern)"
    and body: "loopBody pattern forceEscape st = Some st'"
  from body have "idx st \<le> idx st'"
    by (auto simp: loopBody_def Let_def split: bind_splits if_splits)
  with lt show "((pattern, forceEscape, st'\<lparr>idx := idx st' + 1\<rparr>), (pattern, forceEscape, st))
      \<in> measure (\<lambda>(pattern, forceEscape, st). nat (int (length pattern) - idx st))"
    by simp
qed

text \<open>
  \<^verbatim>\<open>parsePattern\<close> works on the two buffers it is handed; the model takes their
  contents and returns the contents after the scan.
\<close>

definition parsePattern :: "string \<Rightarrow> string \<Rightarrow> string \<Rightarrow> bool \<Rightarrow> (string \<times> string) option" where
  "parsePattern sbuf nbuf pattern forceEscape =
     map_option (\<lambda>st. (schemabuf st, namebuf st))
       (parseLoop pattern forceEscape
          \<lparr>schemabuf = sbuf, namebuf = nbuf, inquotes = False, idx = 0\<rparr>)"

section \<open>The clause compiler\<close>

text \<open>
  The block marked \<^verbatim>\<open>WHEREAND\<close> in the source, which occurs four times: it writes the
  connective; every occurrence then sets \<^verbatim>\<open>haveWhere\<close> and \<^verbatim>\<open>addedClause\<close>.
\<close>

definition WHEREAND :: "string \<Rightarrow> bool \<Rightarrow> string" where
  "WHEREAND w haveWhere = w @ (if haveWhere then ''  AND '' else ''WHERE '')"

text \<open>
  The sink \<open>w\<close> is the text written so far. The three results of each part are the sink,
  \<^verbatim>\<open>haveWhere\<close> and \<^verbatim>\<open>addedClause\<close>. First part: the name buffer.
\<close>

definition nameClause ::
  "string \<Rightarrow> bool \<Rightarrow> bool \<Rightarrow> string \<Rightarrow> string \<Rightarrow> string \<Rightarrow> (string \<times> bool \<times> bool) option" where
  "nameClause w haveWhere addedClause nbuf namevar altnamevar =
     (if 2 < length nbuf then
        (let nbuf' = nbuf @ '')$'' in
         if nbuf' \<noteq> ''^(.*)$'' then do {
           lit \<leftarrow> stringLiteral nbuf';
           Some (if altnamevar \<noteq> []
                 then WHEREAND w haveWhere @ ''('' @ namevar @ '' OPERATOR(pg_catalog.~) '' @ lit
                        @ [newline] @ ''        OR '' @ altnamevar @ '' OPERATOR(pg_catalog.~) ''
                        @ lit @ '')'' @ [newline]
                 else WHEREAND w haveWhere @ namevar @ '' OPERATOR(pg_catalog.~) '' @ lit
                        @ [newline],
                 True, True)
         } else Some (w, haveWhere, addedClause))
      else Some (w, haveWhere, addedClause))"

text \<open>Second part: the schema buffer, or else the visibility rule.\<close>

definition schemaClause ::
  "string \<Rightarrow> bool \<Rightarrow> bool \<Rightarrow> string \<Rightarrow> string \<Rightarrow> string \<Rightarrow> (string \<times> bool \<times> bool) option" where
  "schemaClause w haveWhere addedClause sbuf schemavar visibilityrule =
     (if 2 < length sbuf then
        (let sbuf' = sbuf @ '')$'' in
         if sbuf' \<noteq> ''^(.*)$'' \<and> schemavar \<noteq> [] then do {
           lit \<leftarrow> stringLiteral sbuf';
           Some (WHEREAND w haveWhere @ schemavar @ '' OPERATOR(pg_catalog.~) '' @ lit @ [newline],
                 True, True)
         } else Some (w, haveWhere, addedClause))
      else if visibilityrule \<noteq> []
      then Some (WHEREAND w haveWhere @ visibilityrule @ [newline], True, True)
      else Some (w, haveWhere, addedClause))"

text \<open>
  \<^verbatim>\<open>processSQLNamePattern\<close>: the sink after the call and the result \<^verbatim>\<open>addedClause\<close>.
\<close>

definition processSQLNamePattern ::
  "string \<Rightarrow> string \<Rightarrow> bool \<Rightarrow> bool \<Rightarrow> string \<Rightarrow> string \<Rightarrow> string \<Rightarrow> string
     \<Rightarrow> (string \<times> bool) option" where
  "processSQLNamePattern w pattern haveWhere forceEscape schemavar namevar altnamevar visibilityrule =
     (if pattern = [] then
        (if visibilityrule \<noteq> []
         then Some (WHEREAND w haveWhere @ visibilityrule @ [newline], True)
         else Some (w, False))
      else do {
        (sbuf, nbuf) \<leftarrow> parsePattern [] ''^('' pattern forceEscape;
        (w1, haveWhere1, addedClause1) \<leftarrow> nameClause w haveWhere False nbuf namevar altnamevar;
        (w2, haveWhere2, addedClause2) \<leftarrow>
           schemaClause w1 haveWhere1 addedClause1 sbuf schemavar visibilityrule;
        Some (w2, addedClause2)
      })"

section \<open>Notions of the specification\<close>

text \<open>The printable ASCII characters: the bytes from 0x20 (space) to 0x7E (tilde).\<close>

definition printableASCII :: "char \<Rightarrow> bool" where
  "printableASCII c = (0x20 \<le> (of_char c :: int) \<and> (of_char c :: int) \<le> 0x7E)"

text \<open>
  The escape of the literal quoter, written out: the lower-case hexadecimal digit of a
  number below 16; a number written with \<open>k\<close> hexadecimal digits; the escape of a byte
  below 0x80; and the escape of a character beyond ASCII, which is its number with four
  digits, or with eight from U+10000 on.
\<close>

definition hexDigit :: "nat \<Rightarrow> char" where
  "hexDigit d = (if d < 10 then char_of (of_char (CHR ''0'') + d)
                 else char_of (of_char (CHR ''a'') + (d - 10)))"

fun hexNumber :: "nat \<Rightarrow> int \<Rightarrow> string" where
  "hexNumber 0 n = []"
| "hexNumber (Suc k) n = hexNumber k (n div 16) @ [hexDigit (nat (n mod 16))]"

definition escapedByte :: "char \<Rightarrow> string" where
  "escapedByte c =
     (let n = of_char c :: int in
      if n = 0x5C \<or> n = 0x22 then [bslash, c]
      else if 0x20 \<le> n \<and> n \<le> 0x7E then [c]
      else if n = 0x07 then [bslash, CHR ''a'']
      else if n = 0x08 then [bslash, CHR ''b'']
      else if n = 0x09 then [bslash, CHR ''t'']
      else if n = 0x0A then [bslash, CHR ''n'']
      else if n = 0x0B then [bslash, CHR ''v'']
      else if n = 0x0C then [bslash, CHR ''f'']
      else if n = 0x0D then [bslash, CHR ''r'']
      else [bslash, CHR ''x''] @ hexNumber 2 n)"

definition escapedRune :: "rune \<Rightarrow> string" where
  "escapedRune r =
     (if r < 0x10000 then [bslash, CHR ''u''] @ hexNumber 4 r
      else [bslash, CHR ''U''] @ hexNumber 8 r)"

text \<open>
  The predicates of the decision logic of the clause compiler, as the specification lists
  them, each without its connective: the name predicate (a disjunction when
  \<^verbatim>\<open>altNameVar\<close> is supplied), then the schema predicate or else the visibility rule.
\<close>

definition namePredicate :: "string \<Rightarrow> string \<Rightarrow> string \<Rightarrow> string" where
  "namePredicate namevar altnamevar lit =
     (if altnamevar \<noteq> []
      then ''('' @ namevar @ '' OPERATOR(pg_catalog.~) '' @ lit @ [newline]
             @ ''        OR '' @ altnamevar @ '' OPERATOR(pg_catalog.~) '' @ lit @ '')'' @ [newline]
      else namevar @ '' OPERATOR(pg_catalog.~) '' @ lit @ [newline])"

definition schemaPredicate :: "string \<Rightarrow> string \<Rightarrow> string" where
  "schemaPredicate schemavar lit = schemavar @ '' OPERATOR(pg_catalog.~) '' @ lit @ [newline]"

definition predicates ::
  "string \<Rightarrow> bool \<Rightarrow> string \<Rightarrow> string \<Rightarrow> string \<Rightarrow> string \<Rightarrow> string list" where
  "predicates pattern forceEscape schemavar namevar altnamevar visibilityrule =
     (if pattern = [] then (if visibilityrule \<noteq> [] then [visibilityrule @ [newline]] else [])
      else
        case parsePattern [] ''^('' pattern forceEscape of
          None \<Rightarrow> []
        | Some (sbuf, nbuf) \<Rightarrow>
            (if 2 < length nbuf \<and> nbuf @ '')$'' \<noteq> ''^(.*)$''
             then [namePredicate namevar altnamevar (the (stringLiteral (nbuf @ '')$'')))]
             else [])
            @ (if 2 < length sbuf
               then (if sbuf @ '')$'' \<noteq> ''^(.*)$'' \<and> schemavar \<noteq> []
                     then [schemaPredicate schemavar (the (stringLiteral (sbuf @ '')$'')))]
                     else [])
               else (if visibilityrule \<noteq> [] then [visibilityrule @ [newline]] else [])))"

text \<open>
  The WHERE/AND rule: the first predicate of a query follows \<^verbatim>\<open>WHERE \<close>, unless a
  WHERE was opened before, and every later one follows \<^verbatim>\<open>  AND \<close>.
\<close>

fun threaded :: "bool \<Rightarrow> string list \<Rightarrow> string" where
  "threaded haveWhere [] = []"
| "threaded haveWhere (p # ps) =
     (if haveWhere then ''  AND '' else ''WHERE '') @ p @ threaded True ps"

text \<open>
  Modelled from the spec: the callers of \<^verbatim>\<open>processSQLNamePattern\<close> (the query
  templates) are not among the sources. A caller chains calls on one sink and hands the
  next call \<^verbatim>\<open>haveWhere = true\<close> once a WHERE is open, that is, once it was open
  before or a call has added a clause. A call is given by its arguments \<^verbatim>\<open>pattern\<close>,
  \<^verbatim>\<open>forceEscape\<close>, \<^verbatim>\<open>schemavar\<close>, \<^verbatim>\<open>namevar\<close>, \<^verbatim>\<open>altnamevar\<close> and
  \<^verbatim>\<open>visibilityrule\<close>.
\<close>

type_synonym call = "string \<times> bool \<times> string \<times> string \<times> string \<times> string"

fun chained :: "string \<Rightarrow> bool \<Rightarrow> call list \<Rightarrow> (string \<times> bool) option" where
  "chained w haveWhere [] = Some (w, haveWhere)"
| "chained w haveWhere ((pattern, forceEscape, schemavar, namevar, altnamevar, visibilityrule) # cs) =
     (case processSQLNamePattern w pattern haveWhere forceEscape schemavar namevar altnamevar
             visibilityrule of
        None \<Rightarrow> None
      | Some (w', addedClause) \<Rightarrow> chained w' (haveWhere \<or> addedClause) cs)"

fun callPredicates :: "call \<Rightarrow> string list" where
  "callPredicates (pattern, forceEscape, schemavar, namevar, altnamevar, visibilityrule) =
     predicates pattern forceEscape schemavar namevar altnamevar visibilityrule"

section \<open>Auxiliary facts\<close>

subsection \<open>The literal quoter\<close>

lemma of_char_range: "0 \<le> (of_char c :: int) \<and> (of_char c :: int) < 256"
proof -
  have "0 \<le> (of_char c :: int) mod 256 \<and> (of_char c :: int) mod 256 < 256"
    by (intro conjI pos_mod_sign pos_mod_bound) simp_all
  then show ?thesis by (simp only: of_char_mod_256)
qed

lemma slice_QuoteToASCII:
  "slice (QuoteToASCII s) 1 (int (length (QuoteToASCII s)) - 1) = Some (quoteLoop s)"
  by (simp add: slice_def QuoteToASCII_def)

lemma stringLiteral_total:
  "stringLiteral s = Some (''E'' @ [squote] @ ReplaceQuote (quoteLoop s) @ [squote])"
  by (simp add: stringLiteral_def Let_def slice_QuoteToASCII)

lemma quoteLoop_ascii:
  assumes "(of_char c :: int) < 0x80"
  shows "quoteLoop (c # cs) = appendEscapedRune (of_char c) @ quoteLoop cs"
  using assms by (simp add: Let_def RuneSelf_def RuneError_def)












subsection \<open>Decoded runes\<close>

lemma and_31: "(x::int) AND 0x1F = x mod 32"
proof -
  have "x AND mask 5 = x mod 2 ^ 5"
    by (simp only: take_bit_eq_mod flip: take_bit_eq_mask)
  then show ?thesis by (simp add: mask_eq_exp_minus_1)
qed

lemma and_15: "(x::int) AND 0x0F = x mod 16"
proof -
  have "x AND mask 4 = x mod 2 ^ 4"
    by (simp only: take_bit_eq_mod flip: take_bit_eq_mask)
  then show ?thesis by (simp add: mask_eq_exp_minus_1)
qed

lemma and_7: "(x::int) AND 0x07 = x mod 8"
proof -
  have "x AND mask 3 = x mod 2 ^ 3"
    by (simp only: take_bit_eq_mod flip: take_bit_eq_mask)
  then show ?thesis by (simp add: mask_eq_exp_minus_1)
qed

lemma and_63: "(x::int) AND 0x3F = x mod 64"
proof -
  have "x AND mask 6 = x mod 2 ^ 6"
    by (simp only: take_bit_eq_mod flip: take_bit_eq_mask)
  then show ?thesis by (simp add: mask_eq_exp_minus_1)
qed

lemma or_ge_left: "0 \<le> (a::int) \<Longrightarrow> 0 \<le> b \<Longrightarrow> a \<le> a OR b"
  by (simp add: or_greater_eq)

lemma or_ge_right: "0 \<le> (a::int) \<Longrightarrow> 0 \<le> b \<Longrightarrow> b \<le> a OR b"
  using or_ge_left [of b a] by (simp add: or.commute)

lemma lead_ge:
  assumes "1 \<le> (s0::int) mod 2 ^ k" "0 \<le> y" "7 \<le> n"
  shows "0x80 \<le> push_bit n (s0 mod 2 ^ k) OR y"
proof -
  have "(2::int) ^ 7 \<le> 2 ^ n" using assms(3) by (intro power_increasing) simp_all
  then have "(0x80::int) \<le> 2 ^ n * 1" by simp
  also have "\<dots> \<le> 2 ^ n * (s0 mod 2 ^ k)" using assms(1) by (intro mult_left_mono) simp_all
  finally have a: "0x80 \<le> push_bit n (s0 mod 2 ^ k)" by (simp add: push_bit_eq_mult mult.commute)
  have "push_bit n (s0 mod 2 ^ k) \<le> push_bit n (s0 mod 2 ^ k) OR y"
    using assms(1,2) by (intro or_ge_left) simp_all
  with a show ?thesis by linarith
qed

lemma second_ge:
  assumes "2 \<le> (s1::int) mod 64" "0 \<le> x" "0 \<le> y" "6 \<le> n"
  shows "0x80 \<le> x OR push_bit n (s1 mod 64) OR y"
proof -
  have "(2::int) ^ 6 \<le> 2 ^ n" using assms(4) by (intro power_increasing) simp_all
  then have "(0x80::int) \<le> 2 ^ n * 2" by simp
  also have "\<dots> \<le> 2 ^ n * (s1 mod 64)" using assms(1) by (intro mult_left_mono) simp_all
  finally have a: "0x80 \<le> push_bit n (s1 mod 64)" by (simp add: push_bit_eq_mult mult.commute)
  have b: "push_bit n (s1 mod 64) \<le> push_bit n (s1 mod 64) OR y"
    using assms(3) by (intro or_ge_left) simp_all
  have "push_bit n (s1 mod 64) OR y \<le> x OR push_bit n (s1 mod 64) OR y"
    using assms(2,3) by (intro or_ge_right) simp_all
  with a b show ?thesis by linarith
qed

lemma DecodeRuneInString_ge:
  assumes "0x80 \<le> (of_char c :: int)"
  shows "0x80 \<le> fst (DecodeRuneInString (c # cs))"
proof -
  define s0 :: int where "s0 = of_char c"
  define s1 :: int where "s1 = of_char (cs ! 0)"
  define s2 :: int where "s2 = of_char (cs ! 1)"
  define s3 :: int where "s3 = of_char (cs ! 2)"
  define r2 where "r2 = push_bit 6 (s0 mod 32) OR (s1 mod 64)"
  define r3 where "r3 = push_bit 12 (s0 mod 2 ^ 4) OR push_bit 6 (s1 mod 64) OR (s2 mod 64)"
  define r4 where "r4 = push_bit 18 (s0 mod 2 ^ 3) OR push_bit 12 (s1 mod 64)
                          OR push_bit 6 (s2 mod 64) OR (s3 mod 64)"
  have D: "DecodeRuneInString (c # cs) =
     (case first s0 of
          AS \<Rightarrow> (s0, 1)
        | XX \<Rightarrow> (RuneError, 1)
        | SZ sz lo hi \<Rightarrow>
            if Suc (length cs) < sz then (RuneError, 1)
            else if s1 < lo \<or> hi < s1 then (RuneError, 1)
            else if sz \<le> 2 then (r2, 2)
            else if s2 < 0x80 \<or> 0xBF < s2 then (RuneError, 1)
            else if sz \<le> 3 then (r3, 3)
            else if s3 < 0x80 \<or> 0xBF < s3 then (RuneError, 1)
            else (r4, 4))"
    by (simp add: DecodeRuneInString_def Let_def s0_def s1_def s2_def s3_def r2_def r3_def r4_def
        and_31 and_15 and_7 and_63 numeral_2_eq_2 numeral_3_eq_3 split: leadInfo.splits)
  from assms have s0: "0x80 \<le> s0" by (simp add: s0_def)
  have s0u: "s0 < 256" using of_char_range [of c] by (simp add: s0_def)
  have E: "0x80 \<le> RuneError" by (simp add: RuneError_def)
  consider "s0 < 0xC2" | "0xC2 \<le> s0" "s0 < 0xE0" | "s0 = 0xE0" | "0xE1 \<le> s0" "s0 < 0xF0"
    | "s0 = 0xF0" | "0xF1 \<le> s0" "s0 \<le> 0xF4" | "0xF4 < s0"
    by linarith
  then show ?thesis
  proof cases
    case 1
    with s0 E show ?thesis by (simp add: D first_def)
  next
    case 2
    then have "2 \<le> s0 mod 32" using s0u by presburger
    then have "0x80 \<le> push_bit 6 (s0 mod 32)" by (simp add: push_bit_eq_mult)
    moreover have "push_bit 6 (s0 mod 32) \<le> push_bit 6 (s0 mod 32) OR (s1 mod 64)"
      by (rule or_ge_left) simp_all
    ultimately have "0x80 \<le> r2" unfolding r2_def by linarith
    with 2 E show ?thesis by (simp add: D first_def)
  next
    case 3
    have "0x80 \<le> r3" if "0xA0 \<le> s1" "s1 \<le> 0xBF"
    proof -
      from that have "2 \<le> s1 mod 64" by presburger
      then show ?thesis unfolding r3_def by (intro second_ge) simp_all
    qed
    with 3 E show ?thesis by (simp add: D first_def)
  next
    case 4
    then have "1 \<le> s0 mod 2 ^ 4" using s0u by simp presburger
    then have "0x80 \<le> r3" unfolding r3_def by (intro lead_ge) simp_all
    with 4 E show ?thesis by (simp add: D first_def)
  next
    case 5
    have "0x80 \<le> r4" if "0x90 \<le> s1" "s1 \<le> 0xBF"
    proof -
      from that have "2 \<le> s1 mod 64" by presburger
      then show ?thesis unfolding r4_def by (intro second_ge) simp_all
    qed
    with 5 E show ?thesis by (simp add: D first_def)
  next
    case 6
    then have "1 \<le> s0 mod 2 ^ 3" by simp presburger
    then have "0x80 \<le> r4" unfolding r4_def by (intro lead_ge) simp_all
    with 6 E show ?thesis by (simp add: D first_def)
  next
    case 7
    with E show ?thesis by (simp add: D first_def)
  qed
qed



lemma quoteLoop_copy:
  assumes "printableASCII c" "c \<noteq> bslash" "c \<noteq> dquote"
  shows "quoteLoop (c # cs) = c # quoteLoop cs"
proof -
  from assms(1) have lt: "(of_char c :: int) < 0x80" by (simp add: printableASCII_def)
  have "(of_char c :: int) \<noteq> of_char dquote" "(of_char c :: int) \<noteq> of_char bslash"
    using assms(2,3) by (simp_all only: of_char_eq_iff not_False_eq_True)
  with assms(1) have "appendEscapedRune (of_char c) = [c]"
    by (simp add: appendEscapedRune_def printableASCII_def RuneSelf_def)
  then show ?thesis by (simp only: quoteLoop_ascii [OF lt]) simp
qed

lemma quoteLoop_bslash: "quoteLoop (bslash # cs) = [bslash, bslash] @ quoteLoop cs"
proof -
  have lt: "(of_char bslash :: int) < 0x80" by simp
  have "appendEscapedRune (of_char bslash) = [bslash, bslash]" by code_simp
  then show ?thesis by (simp only: quoteLoop_ascii [OF lt])
qed

lemma ReplaceQuote_append: "ReplaceQuote (s @ t) = ReplaceQuote s @ ReplaceQuote t"
  by (induction s) simp_all

subsection \<open>The escape, byte by byte\<close>

lemma lowerhex_hexDigit_all: "list_all (\<lambda>d. lowerhex ! d = hexDigit d) [0..<16]"
  by code_simp

lemma lowerhex_hexDigit: "d < 16 \<Longrightarrow> lowerhex ! d = hexDigit d"
  using lowerhex_hexDigit_all by (simp add: list_all_iff)

lemma hexNumber_digits:
  "hexNumber k n = map (\<lambda>j. hexDigit (nat (n div 16 ^ j mod 16))) (rev [0..<k])"
proof (induction k arbitrary: n)
  case 0
  show ?case by simp
next
  case (Suc k)
  have "[0..<Suc k] = 0 # [Suc 0..<Suc k]" by (rule upt_conv_Cons) simp
  then have "[0..<Suc k] = 0 # map Suc [0..<k]" by (simp only: map_Suc_upt)
  moreover have "n div 16 div 16 ^ j = n div 16 ^ Suc j" for j
    by (simp add: zdiv_zmult2_eq)
  ultimately show ?case
    by (simp add: Suc.IH rev_map del: upt_Suc)
qed

lemma hexDigits_digits:
  "hexDigits k r = map (\<lambda>j. hexDigit (nat (r div 16 ^ j mod 16))) (rev [0..<k])"
proof (induction k)
  case 0
  show ?case by simp
next
  case (Suc k)
  have "(2::int) ^ (4 * k) = 16 ^ k" by (simp add: power_mult)
  then have n: "drop_bit (4 * k) r AND 0xF = r div 16 ^ k mod 16"
    by (simp add: and_15 drop_bit_eq_div)
  have "0 \<le> r div 16 ^ k mod 16" "r div 16 ^ k mod 16 < 16" by simp_all
  then have "nat (r div 16 ^ k mod 16) < 16" by linarith
  then show ?case by (simp add: Suc.IH n lowerhex_hexDigit)
qed

lemma hexDigits_hexNumber: "hexDigits k r = hexNumber k r"
  by (simp only: hexDigits_digits hexNumber_digits)

lemma and_255: "(x::int) AND 0xFF = x mod 256"
proof -
  have "x AND mask 8 = x mod 2 ^ 8"
    by (simp only: take_bit_eq_mod flip: take_bit_eq_mask)
  then show ?thesis by (simp add: mask_eq_exp_minus_1)
qed

lemma or_le_add: "0 \<le> (a::int) \<Longrightarrow> 0 \<le> b \<Longrightarrow> a OR b \<le> a + b"
proof -
  assume "0 \<le> a" "0 \<le> b"
  then have "0 \<le> a AND b" by simp
  with plus_and_or [of a b] show ?thesis by linarith
qed

lemma hex_byte:
  assumes "0 \<le> (n::int)" "n < 256"
  shows "[lowerhex ! nat (drop_bit 4 n), lowerhex ! nat (n AND 0xF)] = hexNumber 2 n"
proof -
  from assms have d: "n div 16 mod 16 = n div 16" by simp
  from assms have "nat (n div 16) < 16" by simp
  moreover have "nat (n mod 16) < 16" by simp
  ultimately show ?thesis
    by (simp add: numeral_2_eq_2 drop_bit_eq_div and_15 d lowerhex_hexDigit)
qed

lemma appendEscapedRune_ascii:
  assumes "(of_char c :: int) < 0x80"
  shows "appendEscapedRune (of_char c) = escapedByte c"
proof -
  define n :: int where "n = of_char c"
  have n: "0 \<le> n" "n < 0x80" using assms of_char_range [of c] by (simp_all add: n_def)
  then have m: "n AND 0xFF = n" by (simp add: and_255)
  from n have "[lowerhex ! nat (drop_bit 4 n), lowerhex ! nat (n AND 0xF)] = hexNumber 2 n"
    by (intro hex_byte) simp_all
  then have h: "[bslash, CHR ''x'', lowerhex ! nat (drop_bit 4 n), lowerhex ! nat (n AND 0xF)]
      = [bslash, CHR ''x''] @ hexNumber 2 n"
    by simp
  have c: "char_of n = c" by (simp add: n_def)
  have "appendEscapedRune n = escapedByte c"
    unfolding appendEscapedRune_def escapedByte_def Let_def n_def [symmetric] m h
    using n c by (auto simp: RuneSelf_def ValidRune_def)
  then show ?thesis by (simp add: n_def)
qed

lemma quoteLoop_escapedByte:
  assumes "(of_char c :: int) < 0x80"
  shows "quoteLoop (c # cs) = escapedByte c @ quoteLoop cs"
  by (simp only: quoteLoop_ascii [OF assms] appendEscapedRune_ascii [OF assms])

lemma quoteLoop_ascii_text:
  assumes "list_all (\<lambda>c. (of_char c :: int) < 0x80) s"
  shows "quoteLoop s = concat (map escapedByte s)"
  using assms
proof (induction s)
  case Nil
  show ?case by simp
next
  case (Cons c s)
  then have "(of_char c :: int) < 0x80" and "quoteLoop s = concat (map escapedByte s)"
    by simp_all
  then show ?case by (simp only: quoteLoop_escapedByte) simp
qed

lemma ReplaceQuote_concat:
  "ReplaceQuote t = concat (map (\<lambda>c. if c = squote then [squote, squote] else [c]) t)"
  by (induction t) simp_all

lemma DecodeRuneInString_valid:
  assumes "0x80 \<le> (of_char c :: int)"
  shows "ValidRune (fst (DecodeRuneInString (c # cs)))"
proof -
  define s0 :: int where "s0 = of_char c"
  define s1 :: int where "s1 = of_char (cs ! 0)"
  define s2 :: int where "s2 = of_char (cs ! 1)"
  define s3 :: int where "s3 = of_char (cs ! 2)"
  define h2 where "h2 = s0 mod 32"
  define h3 where "h3 = s0 mod 2 ^ 4"
  define h4 where "h4 = s0 mod 2 ^ 3"
  define a where "a = s1 mod 64"
  define b where "b = s2 mod 64"
  define d where "d = s3 mod 64"
  define r2 where "r2 = push_bit 6 h2 OR a"
  define r3 where "r3 = push_bit 12 h3 OR push_bit 6 a OR b"
  define r4 where "r4 = push_bit 18 h4 OR push_bit 12 a OR push_bit 6 b OR d"
  have D: "DecodeRuneInString (c # cs) =
     (case first s0 of
          AS \<Rightarrow> (s0, 1)
        | XX \<Rightarrow> (RuneError, 1)
        | SZ sz lo hi \<Rightarrow>
            if Suc (length cs) < sz then (RuneError, 1)
            else if s1 < lo \<or> hi < s1 then (RuneError, 1)
            else if sz \<le> 2 then (r2, 2)
            else if s2 < 0x80 \<or> 0xBF < s2 then (RuneError, 1)
            else if sz \<le> 3 then (r3, 3)
            else if s3 < 0x80 \<or> 0xBF < s3 then (RuneError, 1)
            else (r4, 4))"
    by (simp add: DecodeRuneInString_def Let_def s0_def s1_def s2_def s3_def r2_def r3_def r4_def
        h2_def h3_def h4_def a_def b_def d_def
        and_31 and_15 and_7 and_63 numeral_2_eq_2 numeral_3_eq_3 split: leadInfo.splits)
  from assms have s0: "0x80 \<le> s0" by (simp add: s0_def)
  have s0u: "s0 < 256" using of_char_range [of c] by (simp add: s0_def)
  have E: "ValidRune RuneError" by (simp add: ValidRune_def RuneError_def MaxRune_def)
  have ra: "0 \<le> a" "a \<le> 63" and rb: "0 \<le> b" "b \<le> 63" and rd: "0 \<le> d" "d \<le> 63"
    by (simp_all add: a_def b_def d_def) 
  have rh: "0 \<le> h2" "0 \<le> h3" "0 \<le> h4" by (simp_all add: h2_def h3_def h4_def)
  have u2: "r2 \<le> 64 * h2 + a"
    unfolding r2_def using or_le_add [of "push_bit 6 h2" a] ra rh
    by (simp add: push_bit_eq_mult)
  have l2: "0 \<le> r2" unfolding r2_def using ra rh by simp
  have x3: "push_bit 6 a OR b \<le> 64 * a + b"
    using or_le_add [of "push_bit 6 a" b] ra rb by (simp add: push_bit_eq_mult)
  have u3: "r3 \<le> 4096 * h3 + 64 * a + b"
    unfolding r3_def using or_le_add [of "push_bit 12 h3" "push_bit 6 a OR b"] x3 ra rb rh
    by (simp add: push_bit_eq_mult)
  have l3: "4096 * h3 \<le> r3"
    unfolding r3_def using or_ge_left [of "push_bit 12 h3" "push_bit 6 a OR b"] ra rb rh
    by (simp add: push_bit_eq_mult)
  have y4: "push_bit 12 a OR push_bit 6 b OR d \<le> 4096 * a + 64 * b + d"
    using or_le_add [of "push_bit 12 a" "push_bit 6 b OR d"]
      or_le_add [of "push_bit 6 b" d] ra rb rd
    by (simp add: push_bit_eq_mult)
  have u4: "r4 \<le> 262144 * h4 + 4096 * a + 64 * b + d"
    unfolding r4_def
    using or_le_add [of "push_bit 18 h4" "push_bit 12 a OR push_bit 6 b OR d"] y4 ra rb rd rh
    by (simp add: push_bit_eq_mult)
  have l4: "262144 * h4 \<le> r4"
    unfolding r4_def
    using or_ge_left [of "push_bit 18 h4" "push_bit 12 a OR push_bit 6 b OR d"] ra rb rd rh
    by (simp add: push_bit_eq_mult)
  have l4a: "4096 * a \<le> r4"
  proof -
    have "push_bit 12 a \<le> push_bit 12 a OR (push_bit 6 b OR d)"
      using ra rb rd by (intro or_ge_left) simp_all
    also have "\<dots> \<le> r4"
      unfolding r4_def using ra rb rd rh by (intro or_ge_right) simp_all
    finally show ?thesis by (simp add: push_bit_eq_mult)
  qed
  consider "s0 < 0xC2" | "0xC2 \<le> s0" "s0 < 0xE0" | "0xE0 \<le> s0" "s0 < 0xED" | "s0 = 0xED"
    | "0xEE \<le> s0" "s0 < 0xF0" | "s0 = 0xF0" | "0xF1 \<le> s0" "s0 < 0xF4" | "s0 = 0xF4"
    | "0xF4 < s0"
    by linarith
  then show ?thesis
  proof cases
    case 1
    with s0 E show ?thesis by (simp add: D first_def)
  next
    case 2
    have "h2 \<le> 31" by (simp add: h2_def)
    with u2 l2 ra have "ValidRune r2" by (simp add: ValidRune_def)
    with 2 E show ?thesis by (simp add: D first_def)
  next
    case 3
    then have "h3 \<le> 12" unfolding h3_def by simp presburger
    with u3 l3 ra rb rh have "ValidRune r3" by (simp add: ValidRune_def)
    with 3 E show ?thesis by (simp add: D first_def)
  next
    case 4
    then have h: "h3 = 13" unfolding h3_def by simp
    have "ValidRune r3" if "\<not> s1 < 0x80" "\<not> 0x9F < s1"
    proof -
      from that have "a \<le> 31" unfolding a_def by presburger
      with u3 l3 h rb show ?thesis by (simp add: ValidRune_def)
    qed
    with 4 E show ?thesis by (simp add: D first_def)
  next
    case 5
    then have "14 \<le> h3" unfolding h3_def by simp presburger
    moreover have "h3 \<le> 15" unfolding h3_def by simp
    ultimately have "ValidRune r3" using u3 l3 ra rb by (simp add: ValidRune_def MaxRune_def)
    with 5 E show ?thesis by (simp add: D first_def)
  next
    case 6
    then have h: "h4 = 0" unfolding h4_def by simp
    have "ValidRune r4" if "\<not> s1 < 0x90" "\<not> 0xBF < s1"
    proof -
      from that have "16 \<le> a" unfolding a_def by presburger
      with u4 l4a h ra rb rd show ?thesis by (simp add: ValidRune_def MaxRune_def)
    qed
    with 6 E show ?thesis by (simp add: D first_def)
  next
    case 7
    then have "1 \<le> h4" "h4 \<le> 3" unfolding h4_def by (simp, presburger)+
    with u4 l4 ra rb rd have "ValidRune r4" by (simp add: ValidRune_def MaxRune_def)
    with 7 E show ?thesis by (simp add: D first_def)
  next
    case 8
    then have h: "h4 = 4" unfolding h4_def by simp
    have "ValidRune r4" if "\<not> s1 < 0x80" "\<not> 0x8F < s1"
    proof -
      from that have "a \<le> 15" unfolding a_def by presburger
      with u4 l4 h ra rb rd show ?thesis by (simp add: ValidRune_def MaxRune_def)
    qed
    with 8 E show ?thesis by (simp add: D first_def)
  next
    case 9
    with E show ?thesis by (simp add: D first_def)
  qed
qed

lemma appendEscapedRune_nonascii:
  assumes "0x80 \<le> r" "ValidRune r"
  shows "appendEscapedRune r = escapedRune r"
  using assms
  by (simp add: appendEscapedRune_def escapedRune_def RuneSelf_def hexDigits_hexNumber)

lemma quoteLoop_nonascii:
  assumes "0x80 \<le> (of_char c :: int)"
  shows "quoteLoop (c # cs) =
     (let rw = DecodeRuneInString (c # cs); r = fst rw; width = snd rw
      in if width = 1 \<and> r = RuneError
         then [bslash, CHR ''x''] @ hexNumber 2 (of_char c) @ quoteLoop cs
         else escapedRune r @ quoteLoop (drop width (c # cs)))"
proof -
  let ?rw = "DecodeRuneInString (c # cs)"
  have hx: "[lowerhex ! nat (drop_bit 4 (of_char c :: int)), lowerhex ! nat (of_char c AND (0xF :: int))]
      = hexNumber 2 (of_char c)"
    using of_char_range [of c] by (intro hex_byte) simp_all
  have a: "appendEscapedRune (fst ?rw) = escapedRune (fst ?rw)"
    using assms by (intro appendEscapedRune_nonascii DecodeRuneInString_ge DecodeRuneInString_valid)
  from assms have q: "quoteLoop (c # cs) =
      (if snd ?rw = 1 \<and> fst ?rw = RuneError
       then [bslash, CHR ''x'', lowerhex ! nat (drop_bit 4 (of_char c :: int)),
             lowerhex ! nat (of_char c AND (0xF :: int))] @ quoteLoop (drop (snd ?rw) (c # cs))
       else appendEscapedRune (fst ?rw) @ quoteLoop (drop (snd ?rw) (c # cs)))"
    by (simp add: Let_def RuneSelf_def del: drop_Cons_numeral)
  show ?thesis
  proof (cases "snd ?rw = 1 \<and> fst ?rw = RuneError")
    case True
    from True q have "quoteLoop (c # cs) = [bslash, CHR ''x'']
        @ [lowerhex ! nat (drop_bit 4 (of_char c :: int)), lowerhex ! nat (of_char c AND (0xF :: int))]
        @ quoteLoop cs"
      by simp
    with True show ?thesis by (simp only: hx Let_def if_True simp_thms)
  next
    case False
    with q a have "quoteLoop (c # cs) = escapedRune (fst ?rw) @ quoteLoop (drop (snd ?rw) (c # cs))"
      by (simp only: if_False)
    with False show ?thesis by (simp only: Let_def if_False)
  qed
qed

subsection \<open>The parser and the compiler never panic\<close>

declare parseLoop.simps [simp del]

lemma loopBody_Some:
  assumes "0 \<le> idx st" "idx st < int (length pattern)"
  shows "\<exists>st'. loopBody pattern forceEscape st = Some st' \<and> idx st \<le> idx st'"
  using assms by (simp add: loopBody_def byteAt_def slice_def Let_def)

lemma parseLoop_Some: "0 \<le> idx st \<Longrightarrow> \<exists>st'. parseLoop pattern forceEscape st = Some st'"
proof (induction pattern forceEscape st rule: parseLoop.induct)
  case (1 pattern forceEscape st)
  show ?case
  proof (cases "idx st < int (length pattern)")
    case True
    with 1(2) obtain st' where b: "loopBody pattern forceEscape st = Some st'"
      and le: "idx st \<le> idx st'"
      using loopBody_Some by blast
    from le 1(2) have "0 \<le> idx (st'\<lparr>idx := idx st' + 1\<rparr>)" by simp
    then have "\<exists>st''. parseLoop pattern forceEscape (st'\<lparr>idx := idx st' + 1\<rparr>) = Some st''"
      by (rule 1(1) [OF True b])
    with True b show ?thesis by (subst parseLoop.simps) simp
  next
    case False
    then show ?thesis by (subst parseLoop.simps) simp
  qed
qed

lemma parsePattern_Some: "\<exists>sbuf nbuf. parsePattern sb nb pattern forceEscape = Some (sbuf, nbuf)"
proof -
  obtain st' where "parseLoop pattern forceEscape
      \<lparr>schemabuf = sb, namebuf = nb, inquotes = False, idx = 0\<rparr> = Some st'"
    using parseLoop_Some [of "\<lparr>schemabuf = sb, namebuf = nb, inquotes = False, idx = 0\<rparr>"]
    by auto
  then show ?thesis by (simp add: parsePattern_def)
qed

lemma nameClause_eq:
  "nameClause w haveWhere addedClause nbuf namevar altnamevar =
     Some (if 2 < length nbuf \<and> nbuf @ '')$'' \<noteq> ''^(.*)$''
           then (w @ threaded haveWhere
                   [namePredicate namevar altnamevar (the (stringLiteral (nbuf @ '')$'')))],
                 True, True)
           else (w, haveWhere, addedClause))"
  by (simp add: nameClause_def Let_def stringLiteral_total WHEREAND_def namePredicate_def)

lemma schemaClause_eq:
  "schemaClause w haveWhere addedClause sbuf schemavar visibilityrule =
     Some (if 2 < length sbuf
           then (if sbuf @ '')$'' \<noteq> ''^(.*)$'' \<and> schemavar \<noteq> []
                 then (w @ threaded haveWhere
                         [schemaPredicate schemavar (the (stringLiteral (sbuf @ '')$'')))],
                       True, True)
                 else (w, haveWhere, addedClause))
           else if visibilityrule \<noteq> []
           then (w @ threaded haveWhere [visibilityrule @ [newline]], True, True)
           else (w, haveWhere, addedClause))"
  by (simp add: schemaClause_def Let_def stringLiteral_total WHEREAND_def schemaPredicate_def)

lemma threaded_append:
  "threaded haveWhere (ps @ qs) = threaded haveWhere ps @ threaded (haveWhere \<or> ps \<noteq> []) qs"
  by (induction ps arbitrary: haveWhere) simp_all

lemma processSQLNamePattern_eq:
  "processSQLNamePattern w pattern haveWhere forceEscape schemavar namevar altnamevar visibilityrule =
     Some (w @ threaded haveWhere
                 (predicates pattern forceEscape schemavar namevar altnamevar visibilityrule),
           predicates pattern forceEscape schemavar namevar altnamevar visibilityrule \<noteq> [])"
proof (cases "pattern = []")
  case True
  then show ?thesis
    by (simp add: processSQLNamePattern_def predicates_def WHEREAND_def)
next
  case False
  obtain sbuf nbuf where pp: "parsePattern [] ''^('' pattern forceEscape = Some (sbuf, nbuf)"
    using parsePattern_Some by blast
  show ?thesis
    using False
    by (simp add: processSQLNamePattern_def predicates_def pp nameClause_eq schemaClause_eq)
qed

lemma parse_star: "parsePattern [] ''^('' ''*'' forceEscape = Some ([], ''^(.*'')"
  by (cases forceEscape) (simp_all add: parsePattern_def parseLoop.simps loopBody_def byteAt_def IsUpper_def)

subsection \<open>Threading of the connectives\<close>

lemma threaded_True: "threaded True ps = concat (map (\<lambda>p. ''  AND '' @ p) ps)"
  by (induction ps) simp_all

lemma predicates_newline:
  "\<forall>p \<in> set (predicates pattern forceEscape schemavar namevar altnamevar visibilityrule).
     p \<noteq> [] \<and> last p = newline"
  by (auto simp: predicates_def namePredicate_def schemaPredicate_def split: option.splits)

lemma chained_eq:
  "chained w haveWhere cs =
     Some (w @ threaded haveWhere (concat (map callPredicates cs)),
           haveWhere \<or> concat (map callPredicates cs) \<noteq> [])"
proof (induction cs arbitrary: w haveWhere)
  case Nil
  show ?case by simp
next
  case (Cons c cs)
  obtain pattern forceEscape schemavar namevar altnamevar visibilityrule
    where c: "c = (pattern, forceEscape, schemavar, namevar, altnamevar, visibilityrule)"
    by (cases c)
  show ?case
    unfolding c
    by (simp add: processSQLNamePattern_eq Cons.IH threaded_append del: concat_eq_Nil_conv)
qed

subsection \<open>Single rounds of the scan\<close>

text \<open>
  A round that reads the separator outside quotes moves the name buffer to the schema
  buffer, whatever that held, and starts the name buffer anew.
\<close>

lemma separator_round:
  assumes "\<not> inquotes st" "byteAt pattern (idx st) = Some (CHR ''.'')"
  shows "loopBody pattern forceEscape st
    = Some (st\<lparr>schemabuf := namebuf st, namebuf := ''^('', idx := idx st + 1\<rparr>)"
  using assms by (auto simp: loopBody_def byteAt_def IsUpper_def split: if_splits)

text \<open>
  A round that reads a quote toggles the flag, unless it is inside quotes and the next
  byte is a quote as well.
\<close>

lemma quote_round:
  assumes "byteAt pattern (idx st) = Some dquote"
    "\<not> (inquotes st \<and> byteAt pattern (idx st + 1) = Some dquote)"
  shows "loopBody pattern forceEscape st
    = Some (st\<lparr>inquotes := \<not> inquotes st, idx := idx st + 1\<rparr>)"
  using assms by (auto simp: loopBody_def byteAt_def split: if_splits)

text \<open>
  The scan of \<^verbatim>\<open>*.*\<close> reads the two stars and skips the separator between them, so
  the name buffer is not the one that is optimized away.
\<close>

lemma star_dot_star_scan:
  "parsePattern [] ''^('' ''*.*'' False = Some ([], ''^(.*.*'')
   \<and> processSQLNamePattern [] ''*.*'' False False ''n.nspname'' ''c.relname'' [] []
     = Some (''WHERE c.relname OPERATOR(pg_catalog.~) E'' @ [squote] @ ''^(.*.*)$''
               @ [squote, newline], True)"
  by code_simp

section \<open>The claims\<close>

text \<open>
  Claim C1. The specification says that the pattern \<^verbatim>\<open>"Foo".Bar\<close>, scanned with
  \<^verbatim>\<open>forceEscape = false\<close>, yields the schema fragment \<^verbatim>\<open>^(Foo)$\<close> and the name
  fragment \<^verbatim>\<open>^(bar)$\<close>. The scan of the code reads only every second byte (each
  case of the switch advances the index, and so does the loop's post statement): it
  leaves the schema buffer empty and the name buffer with \<^verbatim>\<open>^(\obr\<close>, which is
  finalized to \<^verbatim>\<open>^(\obr)$\<close>; the compiler then emits a name predicate only.
\<close>

theorem quoted_schema_pattern_scan:
  "parsePattern [] ''^('' ([dquote] @ ''Foo'' @ [dquote] @ ''.Bar'') False
     = Some ([], ''^('' @ [bslash] @ ''obr'')
   \<and> parsePattern [] ''^('' ([dquote] @ ''Foo'' @ [dquote] @ ''.Bar'') False
     \<noteq> Some (''^(Foo'', ''^(bar'')
   \<and> processSQLNamePattern [] ([dquote] @ ''Foo'' @ [dquote] @ ''.Bar'') False False
       ''n.nspname'' ''c.relname'' [] []
     = Some (''WHERE c.relname OPERATOR(pg_catalog.~) E'' @ [squote] @ ''^('' @ [bslash, bslash]
               @ ''obr)$'' @ [squote, newline], True)"
  by code_simp

text \<open>
  Claim C2. The specification says that the text before the one unquoted \<^verbatim>\<open>.\<close> of a
  pattern becomes the schema fragment and the text after it the name fragment. In
  \<^verbatim>\<open>a.b\<close> the separator is the second byte, which the scan of the code skips: the
  schema buffer stays empty and the name buffer collects both letters.
\<close>

theorem separator_skipped_scan:
  "parsePattern [] ''^('' ''a.b'' False = Some ([], ''^(ab'')
   \<and> parsePattern [] ''^('' ''a.b'' False \<noteq> Some (''^(a'', ''^(b'')"
  by code_simp

text \<open>
  Claim C3. The specification says that a \<^verbatim>\<open>"\<close> read inside quotes and followed by
  another \<^verbatim>\<open>"\<close> puts exactly one \<^verbatim>\<open>"\<close> into the name buffer. The code hands the
  rune constant to \<^verbatim>\<open>fmt.Fprint\<close>, which writes its number: the round of the loop
  appends the two characters \<^verbatim>\<open>34\<close> (and stays inside quotes), as the scan of
  \<^verbatim>\<open>"a""b"\<close> shows, whose third byte is read inside quotes.
\<close>

theorem doubled_quote_scan:
  "loopBody ([dquote] @ ''a'' @ [dquote, dquote] @ ''b'' @ [dquote]) False
      \<lparr>schemabuf = [], namebuf = ''^('', inquotes = True, idx = 2\<rparr>
     = Some \<lparr>schemabuf = [], namebuf = ''^(34'', inquotes = True, idx = 4\<rparr>
   \<and> parsePattern [] ''^('' ([dquote] @ ''a'' @ [dquote, dquote] @ ''b'' @ [dquote]) False
     = Some ([], ''^(34'')"
  by code_simp

text \<open>
  Claim C4, as amended. A round of the loop that reads \<^verbatim>\<open>*\<close> outside quotes appends
  \<^verbatim>\<open>.*\<close> to the name buffer. A buffer that is finalized to \<^verbatim>\<open>^(.*)$\<close> yields no
  name predicate and no schema predicate. For the pattern \<^verbatim>\<open>*\<close> the compiler writes
  nothing if there is no visibility rule, and otherwise exactly the visibility rule under
  the WHERE/AND rule, since the pattern names no schema.
\<close>

theorem star_pattern:
  "(\<not> inquotes st \<and> byteAt pattern (idx st) = Some (CHR ''*'')
      \<longrightarrow> loopBody pattern forceEscape st
            = Some (st\<lparr>namebuf := namebuf st @ ''.*'', idx := idx st + 1\<rparr>))
   \<and> nameClause w haveWhere addedClause ''^(.*'' namevar altnamevar
       = Some (w, haveWhere, addedClause)
   \<and> schemaClause w haveWhere addedClause ''^(.*'' schemavar visibilityrule
       = Some (w, haveWhere, addedClause)
   \<and> processSQLNamePattern w ''*'' haveWhere forceEscape schemavar namevar altnamevar visibilityrule
       = Some (if visibilityrule = [] then (w, False)
               else (w @ (if haveWhere then ''  AND '' else ''WHERE '') @ visibilityrule
                       @ [newline], True))"
proof -
  have step: "loopBody pattern forceEscape st
      = Some (st\<lparr>namebuf := namebuf st @ ''.*'', idx := idx st + 1\<rparr>)"
    if "\<not> inquotes st" "byteAt pattern (idx st) = Some (CHR ''*'')"
    using that by (auto simp: loopBody_def byteAt_def IsUpper_def split: if_splits)
  have compile: "processSQLNamePattern w ''*'' haveWhere forceEscape schemavar namevar altnamevar
        visibilityrule
      = Some (if visibilityrule = [] then (w, False)
              else (w @ (if haveWhere then ''  AND '' else ''WHERE '') @ visibilityrule
                      @ [newline], True))"
    by (simp add: processSQLNamePattern_def parse_star nameClause_eq schemaClause_eq)
  show ?thesis
    using step compile by (simp add: nameClause_eq schemaClause_eq)
qed

theorem star_pattern_witness:
  "loopBody ''*'' False \<lparr>schemabuf = [], namebuf = ''^('', inquotes = False, idx = 0\<rparr>
     = Some \<lparr>schemabuf = [], namebuf = ''^(.*'', inquotes = False, idx = 1\<rparr>
   \<and> processSQLNamePattern [] ''*'' False False ''n.nspname'' ''c.relname'' [] [] = Some ([], False)"
  using star_pattern [where st = "\<lparr>schemabuf = [], namebuf = ''^('', inquotes = False, idx = 0\<rparr>"
      and pattern = "''*''" and forceEscape = False and w = "[]" and haveWhere = False
      and schemavar = "''n.nspname''" and namevar = "''c.relname''" and altnamevar = "[]"
      and visibilityrule = "[]"]
  by (simp add: byteAt_def)

text \<open>
  The claim C4 as the specification states it fails: for the pattern \<^verbatim>\<open>*\<close> and a
  visibility rule, the compiler emits the visibility predicate.
\<close>

theorem star_pattern_counterexample:
  "processSQLNamePattern [] ''*'' False False ''n.nspname'' ''c.relname'' []
       ''pg_catalog.pg_table_is_visible(c.oid)''
     = Some (''WHERE pg_catalog.pg_table_is_visible(c.oid)'' @ [newline], True)"
  by code_simp

text \<open>
  Claim C5. The text that a call appends to the sink is the list of its predicates under
  the WHERE/AND rule: the first follows \<^verbatim>\<open>WHERE \<close> if no WHERE was open and
  \<^verbatim>\<open>  AND \<close> otherwise, every later one follows \<^verbatim>\<open>  AND \<close>; the call returns whether
  it emitted a predicate. The same holds for the predicates of any sequence of calls
  chained through \<^verbatim>\<open>haveWhere\<close>. A call with \<^verbatim>\<open>haveWhere = true\<close> puts \<^verbatim>\<open>  AND \<close>
  before each of its predicates. Every predicate ends with a newline.
\<close>

theorem where_and_threading:
  "processSQLNamePattern w pattern haveWhere forceEscape schemavar namevar altnamevar visibilityrule
     = Some (w @ threaded haveWhere
                   (predicates pattern forceEscape schemavar namevar altnamevar visibilityrule),
             predicates pattern forceEscape schemavar namevar altnamevar visibilityrule \<noteq> [])
   \<and> chained w haveWhere cs
     = Some (w @ threaded haveWhere (concat (map callPredicates cs)),
             haveWhere \<or> concat (map callPredicates cs) \<noteq> [])
   \<and> processSQLNamePattern w pattern True forceEscape schemavar namevar altnamevar visibilityrule
     = Some (w @ concat (map (\<lambda>p. ''  AND '' @ p)
                   (predicates pattern forceEscape schemavar namevar altnamevar visibilityrule)),
             predicates pattern forceEscape schemavar namevar altnamevar visibilityrule \<noteq> [])
   \<and> (\<forall>p \<in> set (predicates pattern forceEscape schemavar namevar altnamevar visibilityrule).
         p \<noteq> [] \<and> last p = newline)"
  using predicates_newline [of pattern forceEscape schemavar namevar altnamevar visibilityrule]
  by (simp only: processSQLNamePattern_eq chained_eq threaded_True simp_thms)

theorem where_and_threading_witness:
  "chained [] False [(''f.o'', False, ''n.nspname'', ''c.relname'', [], ''vis''),
                     ([], False, [], [], [], ''v'')]
     = Some (''WHERE c.relname OPERATOR(pg_catalog.~) E'' @ [squote] @ ''^(fo)$'' @ [squote, newline]
               @ ''  AND vis'' @ [newline] @ ''  AND v'' @ [newline], True)
   \<and> ''v'' @ [newline] \<in> set (predicates [] False [] [] [] ''v'')
   \<and> last (''v'' @ [newline]) = newline"
proof -
  have p1: "predicates ''f.o'' False ''n.nspname'' ''c.relname'' [] ''vis''
      = [''c.relname OPERATOR(pg_catalog.~) E'' @ [squote] @ ''^(fo)$'' @ [squote, newline],
         ''vis'' @ [newline]]"
    by code_simp
  have p2: "predicates [] False [] [] [] ''v'' = [''v'' @ [newline]]"
    by code_simp
  show ?thesis
    using where_and_threading [where w = "[]" and haveWhere = False
        and cs = "[(''f.o'', False, ''n.nspname'', ''c.relname'', [], ''vis''),
                   ([], False, [], [], [], ''v'')]"
        and pattern = "[]" and forceEscape = False and schemavar = "[]" and namevar = "[]"
        and altnamevar = "[]" and visibilityrule = "''v''"]
    by (simp add: p1 p2)
qed

text \<open>
  Claim C6. For the empty pattern the compiler emits the visibility rule, if there is
  one, as the next predicate under the WHERE/AND rule and returns true; otherwise it
  writes nothing and returns false. With \<^verbatim>\<open>haveWhere = false\<close> and the rule
  \<^verbatim>\<open>v.is_visible(c.oid)\<close> it appends exactly that rule after \<^verbatim>\<open>WHERE \<close>, and a
  newline.
\<close>

theorem empty_pattern:
  "processSQLNamePattern w [] haveWhere forceEscape schemavar namevar altnamevar visibilityrule
     = Some (if visibilityrule \<noteq> []
             then (w @ (if haveWhere then ''  AND '' else ''WHERE '') @ visibilityrule @ [newline],
                   True)
             else (w, False))
   \<and> processSQLNamePattern w [] False forceEscape schemavar namevar altnamevar
         ''v.is_visible(c.oid)''
     = Some (w @ ''WHERE v.is_visible(c.oid)'' @ [newline], True)"
  by (simp add: processSQLNamePattern_def WHEREAND_def)

theorem empty_pattern_witness:
  "processSQLNamePattern [] [] True False ''n.nspname'' ''c.relname'' [] ''vis''
     = Some (''  AND vis'' @ [newline], True)
   \<and> processSQLNamePattern [] [] True False ''n.nspname'' ''c.relname'' [] [] = Some ([], False)"
  using empty_pattern [where w = "[]" and haveWhere = True and forceEscape = False
      and schemavar = "''n.nspname''" and namevar = "''c.relname''" and altnamevar = "[]"
      and visibilityrule = "''vis''"]
    empty_pattern [where w = "[]" and haveWhere = True and forceEscape = False
      and schemavar = "''n.nspname''" and namevar = "''c.relname''" and altnamevar = "[]"
      and visibilityrule = "[]"]
  by simp

text \<open>
  Claim C7. The literal quoter never fails, and its result is made in this order: the
  text is escaped, then every single quote is doubled, then the result is put between
  \<^verbatim>\<open>E'\<close> and \<^verbatim>\<open>'\<close>. The escape is determined byte by byte: the escaped
  text of a byte below 0x80 followed by a rest is the escape of that byte (a backslash
  and the double quote get a backslash in front, a control byte becomes its backslash
  sequence, in hexadecimal where it has no letter, any other byte is copied) followed by
  the escaped text of the rest; a byte from 0x80 on that starts no encoding becomes its
  hexadecimal sequence, and an encoded character becomes its number, followed by the
  escaped text of what follows it. For \<^verbatim>\<open>can't\<close> the result is \<^verbatim>\<open>E'can''t'\<close>.
\<close>

theorem stringLiteral_escape_double_wrap:
  "stringLiteral s = Some (''E'' @ [squote] @ ReplaceQuote (quoteLoop s) @ [squote])
   \<and> ReplaceQuote t = concat (map (\<lambda>c. if c = squote then [squote, squote] else [c]) t)
   \<and> quoteLoop [] = []
   \<and> ((of_char c :: int) < 0x80 \<longrightarrow> quoteLoop (c # cs) = escapedByte c @ quoteLoop cs)
   \<and> (0x80 \<le> (of_char c :: int) \<longrightarrow>
        quoteLoop (c # cs) =
          (let rw = DecodeRuneInString (c # cs); r = fst rw; width = snd rw
           in if width = 1 \<and> r = RuneError
              then [bslash, CHR ''x''] @ hexNumber 2 (of_char c) @ quoteLoop cs
              else escapedRune r @ quoteLoop (drop width (c # cs))))
   \<and> (list_all (\<lambda>c. (of_char c :: int) < 0x80) s \<longrightarrow> quoteLoop s = concat (map escapedByte s))
   \<and> quoteLoop (bslash # cs) = [bslash, bslash] @ quoteLoop cs
   \<and> (printableASCII c \<and> c \<noteq> bslash \<and> c \<noteq> dquote \<longrightarrow> quoteLoop (c # cs) = c # quoteLoop cs)
   \<and> stringLiteral (''can'' @ [squote] @ ''t'')
       = Some (''E'' @ [squote] @ ''can'' @ [squote, squote] @ ''t'' @ [squote])"
proof -
  have ex: "stringLiteral (''can'' @ [squote] @ ''t'')
      = Some (''E'' @ [squote] @ ''can'' @ [squote, squote] @ ''t'' @ [squote])"
    by code_simp
  have nil: "quoteLoop [] = []" by simp
  from stringLiteral_total ReplaceQuote_concat nil quoteLoop_escapedByte quoteLoop_nonascii
    quoteLoop_ascii_text quoteLoop_bslash quoteLoop_copy ex
  show ?thesis by blast
qed

theorem stringLiteral_escape_double_wrap_witness:
  "quoteLoop [CHR 0x01, CHR ''a''] = [bslash, CHR ''x'', CHR ''0'', CHR ''1''] @ quoteLoop ''a''
   \<and> quoteLoop [CHR 0x07, CHR 0x1F, bslash, dquote, newline, CHR ''a'', squote]
       = [bslash, CHR ''a'', bslash, CHR ''x'', CHR ''1'', CHR ''f'', bslash, bslash, bslash, dquote,
          bslash, CHR ''n'', CHR ''a'', squote]
   \<and> quoteLoop [CHR 0xC3, CHR 0xA9, CHR ''b''] = [bslash] @ ''u00e9b''
   \<and> quoteLoop [CHR 0xFF, CHR ''b''] = [bslash] @ ''xffb''
   \<and> quoteLoop ''ab'' = CHR ''a'' # quoteLoop ''b''"
proof -
  note t = stringLiteral_escape_double_wrap
  have "(of_char (CHR 0x01) :: int) < 0x80" by simp
  with t [where c = "CHR 0x01" and cs = "''a''"]
  have "quoteLoop [CHR 0x01, CHR ''a''] = escapedByte (CHR 0x01) @ quoteLoop ''a''" by blast
  moreover have "escapedByte (CHR 0x01) = [bslash, CHR ''x'', CHR ''0'', CHR ''1'']" by code_simp
  ultimately have a: "quoteLoop [CHR 0x01, CHR ''a'']
      = [bslash, CHR ''x'', CHR ''0'', CHR ''1''] @ quoteLoop ''a''"
    by (simp only:)
  have "list_all (\<lambda>c. (of_char c :: int) < 0x80)
      [CHR 0x07, CHR 0x1F, bslash, dquote, newline, CHR ''a'', squote]"
    by simp
  with t [where s = "[CHR 0x07, CHR 0x1F, bslash, dquote, newline, CHR ''a'', squote]"]
  have "quoteLoop [CHR 0x07, CHR 0x1F, bslash, dquote, newline, CHR ''a'', squote]
      = concat (map escapedByte [CHR 0x07, CHR 0x1F, bslash, dquote, newline, CHR ''a'', squote])"
    by blast
  moreover have "concat (map escapedByte [CHR 0x07, CHR 0x1F, bslash, dquote, newline, CHR ''a'', squote])
      = [bslash, CHR ''a'', bslash, CHR ''x'', CHR ''1'', CHR ''f'', bslash, bslash, bslash, dquote,
         bslash, CHR ''n'', CHR ''a'', squote]"
    by code_simp
  ultimately have b: "quoteLoop [CHR 0x07, CHR 0x1F, bslash, dquote, newline, CHR ''a'', squote]
      = [bslash, CHR ''a'', bslash, CHR ''x'', CHR ''1'', CHR ''f'', bslash, bslash, bslash, dquote,
         bslash, CHR ''n'', CHR ''a'', squote]"
    by (simp only:)
  have "(0x80 :: int) \<le> of_char (CHR 0xC3)" by simp
  with t [where c = "CHR 0xC3" and cs = "[CHR 0xA9, CHR ''b'']"]
  have "quoteLoop [CHR 0xC3, CHR 0xA9, CHR ''b''] =
      (let rw = DecodeRuneInString [CHR 0xC3, CHR 0xA9, CHR ''b'']; r = fst rw; width = snd rw
       in if width = 1 \<and> r = RuneError
          then [bslash, CHR ''x''] @ hexNumber 2 (of_char (CHR 0xC3)) @ quoteLoop [CHR 0xA9, CHR ''b'']
          else escapedRune r @ quoteLoop (drop width [CHR 0xC3, CHR 0xA9, CHR ''b'']))"
    by blast
  moreover have
     "(let rw = DecodeRuneInString [CHR 0xC3, CHR 0xA9, CHR ''b'']; r = fst rw; width = snd rw
       in if width = 1 \<and> r = RuneError
          then [bslash, CHR ''x''] @ hexNumber 2 (of_char (CHR 0xC3)) @ quoteLoop [CHR 0xA9, CHR ''b'']
          else escapedRune r @ quoteLoop (drop width [CHR 0xC3, CHR 0xA9, CHR ''b'']))
      = [bslash] @ ''u00e9b''"
    by code_simp
  ultimately have c: "quoteLoop [CHR 0xC3, CHR 0xA9, CHR ''b''] = [bslash] @ ''u00e9b''"
    by (simp only:)
  have "(0x80 :: int) \<le> of_char (CHR 0xFF)" by simp
  with t [where c = "CHR 0xFF" and cs = "''b''"]
  have "quoteLoop [CHR 0xFF, CHR ''b''] =
      (let rw = DecodeRuneInString [CHR 0xFF, CHR ''b'']; r = fst rw; width = snd rw
       in if width = 1 \<and> r = RuneError
          then [bslash, CHR ''x''] @ hexNumber 2 (of_char (CHR 0xFF)) @ quoteLoop ''b''
          else escapedRune r @ quoteLoop (drop width [CHR 0xFF, CHR ''b'']))"
    by blast
  moreover have
     "(let rw = DecodeRuneInString [CHR 0xFF, CHR ''b'']; r = fst rw; width = snd rw
       in if width = 1 \<and> r = RuneError
          then [bslash, CHR ''x''] @ hexNumber 2 (of_char (CHR 0xFF)) @ quoteLoop ''b''
          else escapedRune r @ quoteLoop (drop width [CHR 0xFF, CHR ''b'']))
      = [bslash] @ ''xffb''"
    by code_simp
  ultimately have d: "quoteLoop [CHR 0xFF, CHR ''b''] = [bslash] @ ''xffb''"
    by (simp only:)
  have "printableASCII (CHR ''a'') \<and> CHR ''a'' \<noteq> bslash \<and> CHR ''a'' \<noteq> dquote"
    by (simp add: printableASCII_def)
  with t [where c = "CHR ''a''" and cs = "''b''"]
  have e: "quoteLoop ''ab'' = CHR ''a'' # quoteLoop ''b''" by blast
  from a b c d e show ?thesis by (intro conjI)
qed

text \<open>
  Claim C8. The specification says that the scan treats a multi-byte character as a unit
  and never splits it. The code tests the single byte with \<^verbatim>\<open>unicode.IsUpper\<close>: the
  first byte 0xC3 of the two-byte character U+00E9 counts as the upper-case letter
  U+00C3, whose lower-case form is written, and the second byte is skipped. A scan that
  reaches the second byte alone (after \<^verbatim>\<open>a\<close>, whose successor is skipped) decodes it
  as an invalid encoding and writes U+FFFD.
\<close>

theorem multibyte_split_scan:
  "parsePattern [] ''^('' [CHR 0xC3, CHR 0xA9] False = Some ([], ''^('' @ [CHR 0xC3, CHR 0xA3])
   \<and> parsePattern [] ''^('' [CHR ''a'', CHR 0xC3, CHR 0xA9] False
     = Some ([], ''^(a'' @ [CHR 0xEF, CHR 0xBF, CHR 0xBD])"
  by code_simp

text \<open>
  Claim C9. For every input the scan of the parser completes without a panic, and the
  compiler returns its sink and a boolean: no index or slice of the code is out of
  range, and each loop terminates.
\<close>

theorem compile_total:
  "(\<exists>sbuf nbuf. parsePattern sbuf0 nbuf0 pattern forceEscape = Some (sbuf, nbuf))
   \<and> (\<exists>w' addedClause.
        processSQLNamePattern w pattern haveWhere forceEscape schemavar namevar altnamevar
          visibilityrule = Some (w', addedClause))"
  using parsePattern_Some [of sbuf0 nbuf0 pattern forceEscape]
  by (simp only: processSQLNamePattern_eq) blast

theorem compile_total_witness:
  "(\<exists>sbuf nbuf. parsePattern [] ''^('' [dquote, CHR ''a'', CHR ''.'', CHR ''.''] True
       = Some (sbuf, nbuf))
   \<and> (\<exists>w' addedClause.
        processSQLNamePattern [] [dquote, CHR ''a'', CHR ''.'', CHR ''.''] False True
          ''n.nspname'' ''c.relname'' ''c.alt'' ''vis'' = Some (w', addedClause))"
  by (rule compile_total)



end
